theory Spec2Isabelle
  imports Main "HOL-Library.Word" "HOL-Library.Signed_Division"
begin

text \<open>
  The node id allocator of snowflake-gorm: \<open>NodeIdAllocator.Alloc\<close>, which claims,
  renews or migrates a node id against the table \<open>snowflake_kv\<close>; the
  \<open>TimeSynchronizer\<close>, which keeps the latest timestamp and flushes it to the table;
  and the random node id strategy. The definitions follow the Go source; the theorems
  after them settle what the specification says about it.
\<close>

unbundle bit_operations_syntax

section \<open>Machine integers, durations and clock readings\<close>

text \<open>
  Go's \<open>int64\<close> is a 64-bit word: \<open>+\<close> and \<open>-\<close> wrap around, and the comparisons of
  the source are the signed ones (\<open><s\<close>, \<open>\<le>s\<close>). A \<open>time.Duration\<close> is an \<open>int64\<close>
  count of nanoseconds. A \<open>time.Time\<close> is represented by its \<open>UnixMilli\<close> value,
  which is the precision the \<open>datetime(3)\<close> columns of the table keep.
\<close>

type_synonym int64 = "64 word"
type_synonym uint64 = "64 word"
type_synonym Duration = int64
type_synonym time = int64

text \<open>\<open>Duration.Microseconds\<close> and \<open>Duration.Milliseconds\<close>: \<open>int64(d) / 1e3\<close> and
  \<open>int64(d) / 1e6\<close>, Go's division truncating towards zero.\<close>

definition Microseconds :: "Duration \<Rightarrow> int64" where
  "Microseconds d = word_of_int (sint d sdiv 1000)"

definition Milliseconds :: "Duration \<Rightarrow> int64" where
  "Milliseconds d = word_of_int (sint d sdiv 1000000)"

section \<open>The table \<open>snowflake_kv\<close>\<close>

text \<open>One row of the table, as the struct \<open>model.SnowflakeKv\<close> that the source fills:
  \<open>Created\<close> is a pointer (\<open>nil\<close> is \<open>None\<close>).\<close>

record SnowflakeKv =
  Key :: string
  NodeID :: int64
  Time :: int64
  Created :: "time option"
  Updated :: time

datatype error = ErrRecordNotFound | ErrDuplicatedKey | ErrStoreUnavailable | ErrStrategy

text \<open>The database behind the \<open>dao\<close> handle: the rows of the table, and whether the
  database can be reached at all.\<close>

record store =
  rows :: "SnowflakeKv list"
  online :: bool

text \<open>
  The generated query layer \<open>dao\<close> and the struct \<open>model.SnowflakeKv\<close> (package
  \<open>nodeid/gorm/model\<close>) are not among the sources at hand; the source shows the calls
  it makes to them. The operations below give those calls the meaning of the spec's
  store interface: \<open>find(key, nodeId)\<close>, \<open>insert(Record)\<close>,
  \<open>update(key, nodeId, fields)\<close> and \<open>updateByKey(key, fields)\<close>. Each fails when the
  store cannot be reached. The constraints are those of the table definition: \<open>key\<close>
  is the primary key and \<open>node_id\<close> is unique.
\<close>

text \<open>Modelled from the spec: \<open>find(key, nodeId)\<close>, the call
  \<open>Where(Key.Eq(k), NodeID.Eq(n)).First()\<close> of the missing \<open>dao\<close> layer: the first row
  with that key and node id, or the distinguished not-found error.\<close>

definition First :: "store \<Rightarrow> string \<Rightarrow> int64 \<Rightarrow> error + SnowflakeKv" where
  "First db k n =
     (if \<not> online db then Inl ErrStoreUnavailable
      else case filter (\<lambda>r. Key r = k \<and> NodeID r = n) (rows db) of
             [] \<Rightarrow> Inl ErrRecordNotFound
           | r # _ \<Rightarrow> Inr r)"

text \<open>Modelled from the spec: \<open>insert(Record)\<close>, the call \<open>Create(v)\<close> of the
  missing \<open>dao\<close> layer: a new row, refused when its key or its node id is already in
  the table.\<close>

definition Create :: "store \<Rightarrow> SnowflakeKv \<Rightarrow> error + store" where
  "Create db v =
     (if \<not> online db then Inl ErrStoreUnavailable
      else if Key v \<in> set (map Key (rows db)) \<or> NodeID v \<in> set (map NodeID (rows db))
        then Inl ErrDuplicatedKey
      else Inr (db\<lparr>rows := rows db @ [v]\<rparr>))"

text \<open>Modelled from the spec: the \<open>fields\<close> of an update, for the missing \<open>dao\<close>
  layer. \<open>Updates(v)\<close> with a struct writes the fields of \<open>v\<close> that are set (a zero
  integer and a \<open>nil\<close> pointer are not); the key is never rewritten.\<close>

definition assign :: "SnowflakeKv \<Rightarrow> SnowflakeKv \<Rightarrow> SnowflakeKv" where
  "assign v r =
     r\<lparr>NodeID := (if NodeID v = 0 then NodeID r else NodeID v),
       Time := (if Time v = 0 then Time r else Time v),
       Created := (case Created v of None \<Rightarrow> Created r | Some c \<Rightarrow> Some c),
       Updated := Updated v\<rparr>"

text \<open>Modelled from the spec: \<open>update(key, nodeId, fields)\<close> and
  \<open>updateByKey(key, fields)\<close>, the call \<open>Where(cond).Updates(v)\<close> of the missing \<open>dao\<close>
  layer: the rows that satisfy the conditions and carry the key of \<open>v\<close> are assigned;
  with no condition this is \<open>updateByKey\<close>. No matching row is not an error. The
  update is refused when it would leave two rows with one node id.\<close>

definition Updates :: "store \<Rightarrow> (SnowflakeKv \<Rightarrow> bool) \<Rightarrow> SnowflakeKv \<Rightarrow> error + store" where
  "Updates db cond v =
     (if \<not> online db then Inl ErrStoreUnavailable
      else let rs = map (\<lambda>r. if cond r \<and> Key r = Key v then assign v r else r) (rows db)
           in if \<not> distinct (map NodeID rs) then Inl ErrDuplicatedKey
              else Inr (db\<lparr>rows := rs\<rparr>))"

section \<open>\<open>NodeIdAllocator.Alloc\<close>\<close>

text \<open>
  The allocator: its key, its two configured durations, and the embedded strategy
  (the interface \<open>snowflake.NodeIdAllocator\<close>): the result of the strategy's
  \<open>Alloc()\<close> and its \<open>Migration\<close> function, each a node id or an error. During one
  call the strategy answers as a function of its argument, as the hash strategy that
  \<open>NewNodeIdAllocator\<close> installs does. The context, the logger and the database handle
  are not fields here: the store is passed explicitly.
\<close>

record NodeIdAllocator =
  nodeIdKey :: string
  acceptableClockDrift :: Duration
  nodeIdContentionInterval :: Duration
  strategy_Alloc :: "error + int64"
  strategy_Migration :: "int64 \<Rightarrow> error + int64"

text \<open>What a call of \<open>Alloc\<close> leaves behind: the returned pair (an error, or the node
  id), the store, and the durations given to \<open>time.Sleep\<close>, in order.\<close>

record outcome =
  ret :: "error + int64"
  store_after :: store
  slept :: "Duration list"

text \<open>One pass through the body of the \<open>for\<close> loop either returns or reaches
  \<open>continue\<close> with the migrated node id. The body is the source's, branch by branch;
  the line it logs before it migrates has no effect on the result and is left out.\<close>

datatype iteration = Return outcome | Continue int64

definition Alloc_iteration :: "NodeIdAllocator \<Rightarrow> store \<Rightarrow> time \<Rightarrow> int64 \<Rightarrow> iteration" where
  "Alloc_iteration m db now nodeId =
     (let nowMilli = now in
      case First db (nodeIdKey m) nodeId of
        Inl err \<Rightarrow>
          if err = ErrRecordNotFound then
            (let saved = \<lparr>Key = nodeIdKey m, NodeID = nodeId, Time = nowMilli,
                          Created = Some now, Updated = now\<rparr>
             in case Create db saved of
                  Inl err \<Rightarrow> Return \<lparr>ret = Inl err, store_after = db, slept = []\<rparr>
                | Inr db' \<Rightarrow> Return \<lparr>ret = Inr (NodeID saved), store_after = db', slept = []\<rparr>)
          else Return \<lparr>ret = Inl err, store_after = db, slept = []\<rparr>
      | Inr saved \<Rightarrow>
          if nowMilli <s Time saved then
            (if nowMilli - Microseconds (acceptableClockDrift m) \<le>s Time saved then
               Return \<lparr>ret = Inr (NodeID saved), store_after = db,
                       slept = [acceptableClockDrift m]\<rparr>
             else case strategy_Migration m nodeId of
                    Inl err \<Rightarrow> Return \<lparr>ret = Inl err, store_after = db, slept = []\<rparr>
                  | Inr nodeId' \<Rightarrow> Continue nodeId')
          else
            (let saved1 = (if Time saved <s nowMilli - Milliseconds (nodeIdContentionInterval m)
                           then saved\<lparr>NodeID := nodeId\<rparr> else saved);
                 saved2 = saved1\<lparr>Time := nowMilli, Created := None, Updated := now\<rparr>
             in case Updates db (\<lambda>r. Key r = nodeIdKey m \<and> NodeID r = nodeId) saved2 of
                  Inl err \<Rightarrow> Return \<lparr>ret = Inl err, store_after = db, slept = []\<rparr>
                | Inr db' \<Rightarrow> Return \<lparr>ret = Inr (NodeID saved2), store_after = db', slept = []\<rparr>))"

text \<open>The \<open>for\<close> loop has no exit of its own, so the loop is a partial function:
  \<open>None\<close> is a call that never returns.\<close>

partial_function (option) Alloc_loop ::
  "NodeIdAllocator \<Rightarrow> store \<Rightarrow> time \<Rightarrow> int64 \<Rightarrow> outcome option" where
  "Alloc_loop m db now nodeId =
     (case Alloc_iteration m db now nodeId of
        Return out \<Rightarrow> Some out
      | Continue nodeId' \<Rightarrow> Alloc_loop m db now nodeId')"

definition Alloc :: "NodeIdAllocator \<Rightarrow> store \<Rightarrow> time \<Rightarrow> outcome option" where
  "Alloc m db now =
     (case strategy_Alloc m of
        Inl err \<Rightarrow> Some \<lparr>ret = Inl err, store_after = db, slept = []\<rparr>
      | Inr nodeId \<Rightarrow> Alloc_loop m db now nodeId)"

declare Alloc_loop.simps [code]

text \<open>The same loop cut off after \<open>k\<close> passes, to count passes: \<open>None\<close> is then a
  loop that has not returned within \<open>k\<close> passes.\<close>

fun loop_bounded ::
  "nat \<Rightarrow> NodeIdAllocator \<Rightarrow> store \<Rightarrow> time \<Rightarrow> int64 \<Rightarrow> outcome option" where
  "loop_bounded 0 m db now nodeId = None"
| "loop_bounded (Suc k) m db now nodeId =
     (case Alloc_iteration m db now nodeId of
        Return out \<Rightarrow> Some out
      | Continue nodeId' \<Rightarrow> loop_bounded k m db now nodeId')"

section \<open>\<open>RandNodeIdAllocator\<close>\<close>

text \<open>
  Both methods of the random strategy return \<open>rand.Int64N(1023), nil\<close>. \<open>Int64N\<close> is
  the function of the Go library \<open>math/rand/v2\<close>, which is not part of the repository:
  it panics when \<open>n\<close> is not positive and otherwise returns
  \<open>int64(uint64n(uint64(n)))\<close>. On a 64-bit platform \<open>uint64n\<close> reads raw 64-bit
  values from the generator and computes
  \<^verbatim>\<open>
    if n&(n-1) == 0 { return r.Uint64() & (n - 1) }
    hi, lo := bits.Mul64(r.Uint64(), n)
    if lo < n {
        thresh := -n % n
        for lo < thresh { hi, lo = bits.Mul64(r.Uint64(), n) }
    }
    return hi
  \<close>
  The generator itself is not modelled: a call is given the raw values it will read, in
  order, and \<open>None\<close> is a call that has used them all up without accepting one.
\<close>

text \<open>\<open>bits.Mul64\<close>: the high and the low half of the 128-bit product.\<close>

definition Mul64 :: "uint64 \<Rightarrow> uint64 \<Rightarrow> uint64 \<times> uint64" where
  "Mul64 x y = (word_of_nat (unat x * unat y div 2 ^ 64), x * y)"

text \<open>The \<open>for\<close> loop of \<open>uint64n\<close>: a low half below the threshold is dropped and the
  next raw value is multiplied.\<close>

fun unbias :: "uint64 \<Rightarrow> uint64 \<Rightarrow> uint64 \<times> uint64 \<Rightarrow> uint64 list \<Rightarrow> uint64 option" where
  "unbias n thresh (hi, lo) draws =
     (if lo < thresh then
        (case draws of
           [] \<Rightarrow> None
         | x # draws' \<Rightarrow> unbias n thresh (Mul64 x n) draws')
      else Some hi)"

declare unbias.simps [simp del]

definition uint64n :: "uint64 \<Rightarrow> uint64 list \<Rightarrow> uint64 option" where
  "uint64n n draws =
     (case draws of
        [] \<Rightarrow> None
      | x # draws' \<Rightarrow>
          if n AND (n - 1) = 0 then Some (x AND (n - 1))
          else let (hi, lo) = Mul64 x n in
               if lo < n then unbias n ((- n) mod n) (hi, lo) draws' else Some hi)"

text \<open>A call either returns a value or panics.\<close>

datatype 'a call = Returned 'a | Panicked

definition Int64N :: "int64 \<Rightarrow> uint64 list \<Rightarrow> int64 call option" where
  "Int64N n draws =
     (if n \<le>s 0 then Some Panicked else map_option Returned (uint64n n draws))"

definition RandNodeIdAllocator_Alloc :: "uint64 list \<Rightarrow> (error + int64) call option" where
  "RandNodeIdAllocator_Alloc draws =
     (case Int64N 1023 draws of
        None \<Rightarrow> None
      | Some Panicked \<Rightarrow> Some Panicked
      | Some (Returned v) \<Rightarrow> Some (Returned (Inr v)))"

definition RandNodeIdAllocator_Migration ::
  "int64 \<Rightarrow> uint64 list \<Rightarrow> (error + int64) call option" where
  "RandNodeIdAllocator_Migration nodeId draws =
     (case Int64N 1023 draws of
        None \<Rightarrow> None
      | Some Panicked \<Rightarrow> Some Panicked
      | Some (Returned v) \<Rightarrow> Some (Returned (Inr v)))"

section \<open>\<open>TimeSynchronizer\<close>\<close>

text \<open>The synchronizer's key and its atomic watermark \<open>curr\<close>, which starts at 0.\<close>

record TimeSynchronizer =
  sync_nodeIdKey :: string
  curr :: int64

definition NewTimeSynchronizer :: "string \<Rightarrow> TimeSynchronizer" where
  "NewTimeSynchronizer k = \<lparr>sync_nodeIdKey = k, curr = 0\<rparr>"

definition Async :: "int64 \<Rightarrow> TimeSynchronizer \<Rightarrow> TimeSynchronizer" where
  "Async t m = (let last = curr m in if last + 10 <s t then m\<lparr>curr := t\<rparr> else m)"

text \<open>\<open>updateDB\<close>, which the background task of \<open>Run\<close> calls at every tick of its
  ticker: the update is addressed by the key alone (\<open>Where()\<close> has no condition); an
  error of the update is logged and dropped, and the store is then as it was.\<close>

definition updateDB :: "TimeSynchronizer \<Rightarrow> time \<Rightarrow> store \<Rightarrow> store" where
  "updateDB m now db =
     (let currentTime = curr m in
      if currentTime = 0 then db
      else let snowflakeKv = \<lparr>Key = sync_nodeIdKey m, NodeID = 0, Time = currentTime,
                              Created = None, Updated = now\<rparr>
           in case Updates db (\<lambda>r. True) snowflakeKv of
                Inl err \<Rightarrow> db
              | Inr db' \<Rightarrow> db')"

section \<open>Arithmetic of \<open>int64\<close>\<close>

lemma sint_int64_bounds: "- (2 ^ 63) \<le> sint (w :: int64)" "sint (w :: int64) < 2 ^ 63"
  using sint_ge [of w] sint_lt [of w] by simp_all

lemma sint_add_in_range:
  fixes a b :: int64
  assumes "- (2 ^ 63) \<le> sint a + sint b" and "sint a + sint b < 2 ^ 63"
  shows "sint (a + b) = sint a + sint b"
  using assms by (simp add: sint_word_ariths signed_take_bit_int_eq_self)

lemma sint_diff_in_range:
  fixes a b :: int64
  assumes "- (2 ^ 63) \<le> sint a - sint b" and "sint a - sint b < 2 ^ 63"
  shows "sint (a - b) = sint a - sint b"
  using assms by (simp add: sint_word_ariths signed_take_bit_int_eq_self)

lemma sdiv_nonneg:
  fixes k c :: int
  assumes "0 < c" and "0 \<le> k"
  shows "k sdiv c = k div c" and "0 \<le> k sdiv c" and "k sdiv c \<le> k"
proof -
  show e: "k sdiv c = k div c"
    using assms by (simp add: signed_divide_int_def sgn_if)
  show "0 \<le> k sdiv c"
    using assms by (simp add: e pos_imp_zdiv_nonneg_iff)
  show "k sdiv c \<le> k"
  proof (cases "k = 0")
    case True
    then show ?thesis by (simp add: e)
  next
    case False
    then have "0 < k" using assms by simp
    then show ?thesis unfolding e by (rule int_div_le_self)
  qed
qed

lemma sdiv_neg:
  fixes k c :: int
  assumes "0 < c" and "k < 0"
  shows "k sdiv c = - ((- k) div c)" and "k sdiv c \<le> 0" and "k \<le> k sdiv c"
proof -
  show e: "k sdiv c = - ((- k) div c)"
    using assms by (simp add: signed_divide_int_def sgn_if)
  have p: "0 < - k" using assms by simp
  show "k sdiv c \<le> 0"
    using assms by (simp add: e pos_imp_zdiv_nonneg_iff)
  have "(- k) div c \<le> - k" using p by (rule int_div_le_self)
  then show "k \<le> k sdiv c" unfolding e by simp
qed

lemma sint_word_of_int_sdiv:
  fixes d :: int64
  assumes c: "0 < c"
  shows "sint (word_of_int (sint d sdiv c) :: int64) = sint d sdiv c"
proof -
  have "- (2 ^ 63) \<le> sint d sdiv c \<and> sint d sdiv c < 2 ^ 63"
  proof (cases "0 \<le> sint d")
    case True
    from sdiv_nonneg(2,3) [OF c True] sint_int64_bounds(2) [of d]
    show ?thesis by simp
  next
    case False
    then have n: "sint d < 0" by simp
    from sdiv_neg(2,3) [OF c n] sint_int64_bounds(1) [of d]
    show ?thesis by simp
  qed
  then show ?thesis by (simp add: sint_sbintrunc' signed_take_bit_int_eq_self)
qed

lemma sint_Microseconds: "sint (Microseconds d) = sint d sdiv 1000"
  unfolding Microseconds_def by (rule sint_word_of_int_sdiv) simp

lemma sint_Milliseconds: "sint (Milliseconds d) = sint d sdiv 1000000"
  unfolding Milliseconds_def by (rule sint_word_of_int_sdiv) simp

lemma sint_add10:
  "sint (w :: int64) + 10 < 2 ^ 63 \<Longrightarrow> sint (w + 10) = sint w + 10"
  using sint_int64_bounds(1) [of w] by (simp add: sint_add_in_range)

section \<open>The store operations\<close>

lemma First_Inr:
  assumes "First db k n = Inr r"
  shows "Key r = k" and "NodeID r = n" and "r \<in> set (rows db)" and "online db"
proof -
  from assms have o: "online db" and "\<exists>rs. filter (\<lambda>r. Key r = k \<and> NodeID r = n) (rows db) = r # rs"
    by (auto simp: First_def split: if_splits list.splits)
  then obtain rs where "filter (\<lambda>r. Key r = k \<and> NodeID r = n) (rows db) = r # rs" by blast
  then have "r \<in> set (filter (\<lambda>r. Key r = k \<and> NodeID r = n) (rows db))" by simp
  then show "Key r = k" and "NodeID r = n" and "r \<in> set (rows db)" by simp_all
  show "online db" by (rule o)
qed

lemma First_Inr_key: "First db k n = Inr r \<Longrightarrow> k \<in> set (map Key (rows db))"
  using First_Inr(1,3) [of db k n r] by force

lemma assign_Key: "Key (assign v r) = Key r"
  by (simp add: assign_def)

lemma Updates_Inr:
  assumes "Updates db cond v = Inr db'"
  shows "online db' = online db"
    and "rows db' = map (\<lambda>r. if cond r \<and> Key r = Key v then assign v r else r) (rows db)"
  using assms by (auto simp: Updates_def Let_def split: if_splits)

lemma Updates_keys:
  assumes "Updates db cond v = Inr db'"
  shows "map Key (rows db') = map Key (rows db)"
  unfolding Updates_Inr(2) [OF assms] by (simp add: assign_Key cong: map_cong)

lemma Create_Inr:
  assumes "Create db v = Inr db'"
  shows "rows db' = rows db @ [v]" and "Key v \<notin> set (map Key (rows db))"
    and "NodeID v \<notin> set (map NodeID (rows db))" and "online db' = online db"
  using assms by (auto simp: Create_def split: if_splits)

lemma assign_NodeID:
  "NodeID v = NodeID r \<Longrightarrow> NodeID (assign v r) = NodeID r"
  by (simp add: assign_def)

lemma Updates_frame:
  assumes "Updates db (\<lambda>r. Key r = k \<and> NodeID r = n) v = Inr db'"
  shows "length (rows db') = length (rows db)"
    and "\<forall>i<length (rows db). Key (rows db ! i) \<noteq> k \<longrightarrow> rows db' ! i = rows db ! i"
  unfolding Updates_Inr(2) [OF assms] by simp_all

lemma distinct_key_pairs:
  "distinct (map Key rs) \<Longrightarrow> distinct (map (\<lambda>r. (Key r, NodeID r)) rs)"
  by (induction rs) auto

lemma First_Updates:
  assumes found: "First db k n = Inr saved"
      and upd: "Updates db (\<lambda>r. Key r = k \<and> NodeID r = n) v = Inr db'"
      and v: "Key v = k" "NodeID v = n"
  shows "First db' k n = Inr (assign v saved)"
proof -
  let ?P = "\<lambda>r. Key r = k \<and> NodeID r = n"
  let ?f = "\<lambda>r. if (Key r = k \<and> NodeID r = n) \<and> Key r = Key v then assign v r else r"
  have P: "?P (?f r) = ?P r" for r
    using v by (simp add: assign_def)
  from found obtain rest where f: "filter ?P (rows db) = saved # rest" and o: "online db"
    by (auto simp: First_def split: if_splits list.splits)
  have s: "?P saved" using First_Inr(1,2) [OF found] by simp
  have "filter ?P (rows db') = map ?f (filter (?P \<circ> ?f) (rows db))"
    unfolding Updates_Inr(2) [OF upd] by (simp add: filter_map)
  also have "?P \<circ> ?f = ?P" using P by (simp add: fun_eq_iff)
  finally have "filter ?P (rows db') = ?f saved # map ?f rest" by (simp add: f)
  moreover have "?f saved = assign v saved" using s v by simp
  moreover have "online db'" using Updates_Inr(1) [OF upd] o by simp
  ultimately show ?thesis by (simp add: First_def)
qed

section \<open>The loop of \<open>Alloc\<close>\<close>

lemma Alloc_loop_Return:
  "Alloc_iteration m db now n = Return out \<Longrightarrow> Alloc_loop m db now n = Some out"
  by (subst Alloc_loop.simps) simp

lemma Alloc_loop_Continue:
  "Alloc_iteration m db now n = Continue n' \<Longrightarrow> Alloc_loop m db now n = Alloc_loop m db now n'"
  by (subst Alloc_loop.simps) simp

lemma Alloc_loop_Some_iteration:
  assumes "Alloc_loop m db now n = Some out"
  shows "\<exists>n'. Alloc_iteration m db now n' = Return out"
proof (rule Alloc_loop.raw_induct
    [where P = "\<lambda>m db now n out. \<exists>n'. Alloc_iteration m db now n' = Return out", OF _ assms])
  fix f m db now nodeId out
  assume IH: "\<And>m db now nodeId out. f m db now nodeId = Some out \<Longrightarrow>
                \<exists>n'. Alloc_iteration m db now n' = Return out"
    and step: "(case Alloc_iteration m db now nodeId of Return out \<Rightarrow> Some out
               | Continue nodeId' \<Rightarrow> f m db now nodeId') = Some out"
  show "\<exists>n'. Alloc_iteration m db now n' = Return out"
  proof (cases "Alloc_iteration m db now nodeId")
    case (Return out')
    with step show ?thesis by auto
  next
    case (Continue nodeId')
    with step have "f m db now nodeId' = Some out" by simp
    then show ?thesis by (rule IH)
  qed
qed

lemma loop_bounded_Some_loop:
  "loop_bounded k m db now n = Some out \<Longrightarrow> Alloc_loop m db now n = Some out"
proof (induction k arbitrary: n)
  case 0
  then show ?case by simp
next
  case (Suc k)
  show ?case
  proof (cases "Alloc_iteration m db now n")
    case (Return out')
    with Suc.prems show ?thesis by (simp add: Alloc_loop_Return)
  next
    case (Continue n')
    with Suc.prems have "loop_bounded k m db now n' = Some out" by simp
    then have "Alloc_loop m db now n' = Some out" by (rule Suc.IH)
    then show ?thesis by (simp add: Alloc_loop_Continue [OF Continue])
  qed
qed





lemma Alloc_Some_cases:
  assumes "Alloc m db now = Some out"
  obtains (strategy) e where "strategy_Alloc m = Inl e"
      and "out = \<lparr>ret = Inl e, store_after = db, slept = []\<rparr>"
  | (iteration) n where "Alloc_iteration m db now n = Return out"
proof (cases "strategy_Alloc m")
  case (Inl e)
  with assms have "out = \<lparr>ret = Inl e, store_after = db, slept = []\<rparr>"
    by (simp add: Alloc_def)
  with Inl show ?thesis by (rule strategy)
next
  case (Inr n0)
  with assms have "Alloc_loop m db now n0 = Some out" by (simp add: Alloc_def)
  then obtain n where "Alloc_iteration m db now n = Return out"
    using Alloc_loop_Some_iteration by blast
  then show ?thesis by (rule iteration)
qed

section \<open>One pass of the loop\<close>

lemma Alloc_iteration_cases:
  assumes "Alloc_iteration m db now n = Return out"
  obtains
    (failed) e where "ret out = Inl e" and "store_after out = db" and "slept out = []"
  | (created) db' where "First db (nodeIdKey m) n = Inl ErrRecordNotFound"
      and "Create db \<lparr>Key = nodeIdKey m, NodeID = n, Time = now,
                       Created = Some now, Updated = now\<rparr> = Inr db'"
      and "out = \<lparr>ret = Inr n, store_after = db', slept = []\<rparr>"
  | (waited) saved where "First db (nodeIdKey m) n = Inr saved" and "now <s Time saved"
      and "out = \<lparr>ret = Inr (NodeID saved), store_after = db,
                   slept = [acceptableClockDrift m]\<rparr>"
  | (updated) saved db' where "First db (nodeIdKey m) n = Inr saved" and "\<not> now <s Time saved"
      and "Updates db (\<lambda>r. Key r = nodeIdKey m \<and> NodeID r = n)
             (saved\<lparr>NodeID := n, Time := now, Created := None, Updated := now\<rparr>) = Inr db'"
      and "out = \<lparr>ret = Inr n, store_after = db', slept = []\<rparr>"
proof (cases "First db (nodeIdKey m) n")
  case (Inl err)
  show ?thesis
  proof (cases "err = ErrRecordNotFound")
    case True
    show ?thesis
    proof (cases "Create db \<lparr>Key = nodeIdKey m, NodeID = n, Time = now,
                       Created = Some now, Updated = now\<rparr>")
      case (Inl e)
      with assms \<open>First db (nodeIdKey m) n = Inl err\<close> True
      have "out = \<lparr>ret = Inl e, store_after = db, slept = []\<rparr>"
        by (simp add: Alloc_iteration_def)
      then show ?thesis by (intro failed [of e]) simp_all
    next
      case (Inr db')
      with assms \<open>First db (nodeIdKey m) n = Inl err\<close> True
      have "out = \<lparr>ret = Inr n, store_after = db', slept = []\<rparr>"
        by (simp add: Alloc_iteration_def)
      with Inr \<open>First db (nodeIdKey m) n = Inl err\<close> True show ?thesis
        by (intro created [of db']) simp_all
    qed
  next
    case False
    with assms Inl have "out = \<lparr>ret = Inl err, store_after = db, slept = []\<rparr>"
      by (simp add: Alloc_iteration_def)
    then show ?thesis by (intro failed [of err]) simp_all
  qed
next
  case (Inr saved)
  note found = this
  have id: "NodeID saved = n" using First_Inr(2) [OF found] .
  show ?thesis
  proof (cases "now <s Time saved")
    case True
    show ?thesis
    proof (cases "now - Microseconds (acceptableClockDrift m) \<le>s Time saved")
      case w: True
      with assms found True
      have "out = \<lparr>ret = Inr (NodeID saved), store_after = db, slept = [acceptableClockDrift m]\<rparr>"
        by (simp add: Alloc_iteration_def)
      with found True show ?thesis by (intro waited [of saved]) simp_all
    next
      case nw: False
      with assms found True obtain e where "strategy_Migration m n = Inl e"
        and "out = \<lparr>ret = Inl e, store_after = db, slept = []\<rparr>"
        by (cases "strategy_Migration m n") (simp_all add: Alloc_iteration_def)
      then show ?thesis by (intro failed [of e]) simp_all
    qed
  next
    case False
    let ?v = "saved\<lparr>NodeID := n, Time := now, Created := None, Updated := now\<rparr>"
    have same: "(if Time saved <s now - Milliseconds (nodeIdContentionInterval m)
                 then saved\<lparr>NodeID := n\<rparr> else saved) = saved\<lparr>NodeID := n\<rparr>"
      using id by simp
    have v: "(if Time saved <s now - Milliseconds (nodeIdContentionInterval m)
                 then saved\<lparr>NodeID := n\<rparr> else saved)\<lparr>Time := now, Created := None, Updated := now\<rparr> = ?v"
      unfolding same by simp
    show ?thesis
    proof (cases "Updates db (\<lambda>r. Key r = nodeIdKey m \<and> NodeID r = n) ?v")
      case (Inl e)
      with assms found False v have "out = \<lparr>ret = Inl e, store_after = db, slept = []\<rparr>"
        by (simp add: Alloc_iteration_def Let_def)
      then show ?thesis by (intro failed [of e]) simp_all
    next
      case (Inr db')
      with assms found False v have "out = \<lparr>ret = Inr n, store_after = db', slept = []\<rparr>"
        by (simp add: Alloc_iteration_def Let_def)
      with found False Inr show ?thesis by (intro updated [of saved db']) simp_all
    qed
  qed
qed



lemma rollback_waits:
  fixes nowMilli saved_time :: int64
  assumes ahead: "nowMilli <s saved_time"
      and drift: "0 \<le>s d"
      and low: "- (2 ^ 63) \<le> sint nowMilli - sint (Microseconds d)"
  shows "nowMilli - Microseconds d \<le>s saved_time"
proof -
  have "0 \<le> sint d" using drift by (simp add: word_sle_eq)
  then have us: "0 \<le> sint (Microseconds d)"
    by (simp add: sint_Microseconds sdiv_nonneg)
  have "sint nowMilli - sint (Microseconds d) < 2 ^ 63"
    using us sint_int64_bounds(2) [of nowMilli] by simp
  with low have "sint (nowMilli - Microseconds d) = sint nowMilli - sint (Microseconds d)"
    by (rule sint_diff_in_range)
  moreover have "sint nowMilli < sint saved_time" using ahead by (simp add: word_sless_alt)
  ultimately show ?thesis using us by (simp add: word_sle_eq)
qed

lemma rollback_iteration_waits:
  assumes found: "First db (nodeIdKey m) n = Inr saved"
      and ahead: "now <s Time saved"
      and drift: "0 \<le>s acceptableClockDrift m"
      and clock: "0 \<le>s now"
  shows "Alloc_iteration m db now n =
           Return \<lparr>ret = Inr n, store_after = db, slept = [acceptableClockDrift m]\<rparr>"
proof -
  have d: "0 \<le> sint (acceptableClockDrift m)" using drift by (simp add: word_sle_eq)
  have "sint (Microseconds (acceptableClockDrift m)) \<le> sint (acceptableClockDrift m)"
    using d by (simp add: sint_Microseconds sdiv_nonneg)
  moreover have "0 \<le> sint now" using clock by (simp add: word_sle_eq)
  ultimately have "- (2 ^ 63) \<le> sint now - sint (Microseconds (acceptableClockDrift m))"
    using sint_int64_bounds(2) [of "acceptableClockDrift m"] by simp
  with ahead drift have "now - Microseconds (acceptableClockDrift m) \<le>s Time saved"
    by (rule rollback_waits)
  with found ahead First_Inr(2) [OF found] show ?thesis
    by (simp add: Alloc_iteration_def)
qed

lemma iteration_distinct_keys:
  assumes "Alloc_iteration m db now n = Return out" and "distinct (map Key (rows db))"
  shows "distinct (map Key (rows (store_after out)))"
  using assms(1)
proof (cases rule: Alloc_iteration_cases)
  case (failed e)
  with assms(2) show ?thesis by simp
next
  case (created db')
  with assms(2) Create_Inr(1,2) [OF created(2)] show ?thesis by simp
next
  case (waited saved)
  with assms(2) show ?thesis by simp
next
  case (updated saved db')
  with assms(2) Updates_keys [OF updated(3)] show ?thesis by simp
qed

lemma iteration_no_insert:
  assumes "Alloc_iteration m db now n = Return out"
      and "nodeIdKey m \<in> set (map Key (rows db))"
  shows "map Key (rows (store_after out)) = map Key (rows db) \<and>
         length (rows (store_after out)) = length (rows db) \<and>
         (\<forall>i<length (rows db). Key (rows db ! i) \<noteq> nodeIdKey m \<longrightarrow>
            rows (store_after out) ! i = rows db ! i)"
  using assms(1)
proof (cases rule: Alloc_iteration_cases)
  case (failed e)
  then show ?thesis by simp
next
  case (created db')
  from Create_Inr(2) [OF created(2)] assms(2) have False by simp
  then show ?thesis ..
next
  case (waited saved)
  then show ?thesis by simp
next
  case (updated saved db')
  with Updates_keys [OF updated(3)] Updates_frame [OF updated(3)]
  show ?thesis by simp
qed

lemma iteration_success_key:
  assumes "Alloc_iteration m db now n = Return out" and "ret out = Inr v"
  shows "nodeIdKey m \<in> set (map Key (rows (store_after out)))"
  using assms(1)
proof (cases rule: Alloc_iteration_cases)
  case (failed e)
  with assms(2) show ?thesis by simp
next
  case (created db')
  with Create_Inr(1) [OF created(2)] show ?thesis by simp
next
  case (waited saved)
  with First_Inr_key [OF waited(1)] show ?thesis by simp
next
  case (updated saved db')
  with First_Inr_key [OF updated(1)] Updates_keys [OF updated(3)] show ?thesis by simp
qed

lemma iteration_candidate:
  assumes "Alloc_iteration m db now n = Return out" and "ret out = Inr v"
  shows "v = n"
  using assms(1)
proof (cases rule: Alloc_iteration_cases)
  case (failed e)
  with assms(2) show ?thesis by simp
next
  case (created db')
  with assms(2) show ?thesis by simp
next
  case (waited saved)
  with assms(2) First_Inr(2) [OF waited(1)] show ?thesis by simp
next
  case (updated saved db')
  with assms(2) show ?thesis by simp
qed

lemma iteration_found_node_ids:
  assumes "Alloc_iteration m db now n = Return out" and "First db (nodeIdKey m) n = Inr saved"
  shows "map NodeID (rows (store_after out)) = map NodeID (rows db)"
  using assms(1)
proof (cases rule: Alloc_iteration_cases)
  case (failed e)
  then show ?thesis by simp
next
  case (created db')
  with assms(2) show ?thesis by simp
next
  case (waited saved')
  then show ?thesis by simp
next
  case (updated saved' db')
  have "map NodeID (rows db') = map NodeID (rows db)"
    unfolding Updates_Inr(2) [OF updated(3)]
    by (simp add: assign_NodeID cong: map_cong)
  with updated(4) show ?thesis by simp
qed

lemma iteration_effect:
  assumes it: "Alloc_iteration m db now n = Return out"
  shows "(\<forall>e. ret out = Inl e \<longrightarrow> store_after out = db) \<and>
         (\<forall>saved. First db (nodeIdKey m) n = Inr saved \<and> now <s Time saved \<longrightarrow>
            store_after out = db) \<and>
         (\<forall>saved v. ret out = Inr v \<and> First db (nodeIdKey m) n = Inr saved \<and>
            \<not> now <s Time saved \<and> now \<noteq> 0 \<longrightarrow>
            First (store_after out) (nodeIdKey m) n = Inr (saved\<lparr>Time := now, Updated := now\<rparr>))"
  using it
proof (cases rule: Alloc_iteration_cases)
  case (failed e)
  then show ?thesis by simp
next
  case (created db')
  then show ?thesis by simp
next
  case (waited saved)
  then show ?thesis by simp
next
  case (updated saved db')
  let ?v = "saved\<lparr>NodeID := n, Time := now, Created := None, Updated := now\<rparr>"
  have k: "Key ?v = nodeIdKey m" "NodeID ?v = n" using First_Inr(1) [OF updated(1)] by simp_all
  have a: "now \<noteq> 0 \<Longrightarrow> assign ?v saved = saved\<lparr>Time := now, Updated := now\<rparr>"
    using First_Inr(2) [OF updated(1)] by (simp add: assign_def)
  from First_Updates [OF updated(1) updated(3) k] a updated show ?thesis by simp
qed

section \<open>The watermark of the synchronizer\<close>

lemma Async_curr:
  "sint (curr m) + 10 < 2 ^ 63 \<Longrightarrow>
   curr (Async t m) = (if sint (curr m) + 10 < sint t then t else curr m)"
  by (simp add: Async_def word_sless_alt sint_add10)

lemma fold_Async_inv:
  assumes "\<forall>t\<in>set ts. sint t + 10 < 2 ^ 63" and "sint (curr m) + 10 < 2 ^ 63"
  shows "(curr (fold Async ts m) = curr m \<or> curr (fold Async ts m) \<in> set ts) \<and>
         sint (curr m) \<le> sint (curr (fold Async ts m)) \<and>
         sint (curr (fold Async ts m)) + 10 < 2 ^ 63 \<and>
         (\<forall>t\<in>set ts. sint t \<le> sint (curr (fold Async ts m)) + 10)"
  using assms(1)
proof (induction ts rule: rev_induct)
  case Nil
  show ?case using assms(2) by simp
next
  case (snoc t ts)
  let ?m = "fold Async ts m"
  from snoc have IH: "(curr ?m = curr m \<or> curr ?m \<in> set ts)"
      "sint (curr m) \<le> sint (curr ?m)" "sint (curr ?m) + 10 < 2 ^ 63"
      "\<forall>t\<in>set ts. sint t \<le> sint (curr ?m) + 10"
    by simp_all
  from snoc.prems have t: "sint t + 10 < 2 ^ 63" by simp
  have step: "fold Async (ts @ [t]) m = Async t ?m" by simp
  show ?case
  proof (cases "sint (curr ?m) + 10 < sint t")
    case True
    then have "curr (Async t ?m) = t" using IH(3) by (simp add: Async_curr)
    with True IH t show ?thesis unfolding step by auto
  next
    case False
    then have "curr (Async t ?m) = curr ?m" using IH(3) by (simp add: Async_curr)
    with False IH t show ?thesis unfolding step by auto
  qed
qed

text \<open>
  C8. One call \<open>Async(t)\<close> on a synchronizer whose watermark is \<open>w\<close>: as long as
  \<open>w + 10\<close> stays within \<open>int64\<close>, the watermark afterwards is \<open>t\<close> when
  \<open>t > w + 10\<close> and is still \<open>w\<close> otherwise, and nothing else of the synchronizer
  changes.
\<close>

theorem Async_hysteresis:
  "sint (curr m) + 10 < 2 ^ 63 \<Longrightarrow>
   Async t m = (if sint (curr m) + 10 < sint t then m\<lparr>curr := t\<rparr> else m)"
  by (simp add: Async_def word_sless_alt sint_add10)

theorem Async_hysteresis_witness:
  "sint (1700000000000 :: int64) + 10 < 2 ^ 63 \<and>
   Async 1700000000011 \<lparr>sync_nodeIdKey = ''svc:8080'', curr = 1700000000000\<rparr>
     = \<lparr>sync_nodeIdKey = ''svc:8080'', curr = 1700000000011\<rparr> \<and>
   Async 1700000000010 \<lparr>sync_nodeIdKey = ''svc:8080'', curr = 1700000000000\<rparr>
     = \<lparr>sync_nodeIdKey = ''svc:8080'', curr = 1700000000000\<rparr>"
  using Async_hysteresis [of "\<lparr>sync_nodeIdKey = ''svc:8080'', curr = 1700000000000\<rparr>" 1700000000011]
    Async_hysteresis [of "\<lparr>sync_nodeIdKey = ''svc:8080'', curr = 1700000000000\<rparr>" 1700000000010]
  by simp

text \<open>
  A first push of the largest \<open>int64\<close> is stored. From then on \<open>last + 10\<close> wraps
  around to a negative number: \<open>Async(0)\<close> stores 0, although 0 does not exceed the
  watermark.
\<close>

theorem Async_overflow_counterexample:
  "curr (Async 9223372036854775807 (NewTimeSynchronizer ''svc:8080'')) = 9223372036854775807 \<and>
   \<not> sint (9223372036854775807 :: int64) + 10 < sint (0 :: int64) \<and>
   curr (Async 0 (Async 9223372036854775807 (NewTimeSynchronizer ''svc:8080''))) = 0"
  by (simp add: Async_def NewTimeSynchronizer_def word_sless_alt)

text \<open>
  C5. A sequence of pushes from the initial watermark 0, every pushed value at least 10
  below the largest \<open>int64\<close>: the watermark afterwards is 0 or one of the pushed values,
  it is not negative, and no pushed value is more than 10 above it. So it is within 10
  of the largest value seen, and a push is dropped only when it is not more than 10
  above the watermark of that moment. Pushing 100, 50, 300 and 200, in any order and
  any number of times, leaves 300.
\<close>

theorem Async_sequence_within_hysteresis:
  assumes "\<forall>t\<in>set ts. sint t + 10 < 2 ^ 63"
  shows "(curr (fold Async ts (NewTimeSynchronizer k)) = 0 \<or>
          curr (fold Async ts (NewTimeSynchronizer k)) \<in> set ts) \<and>
         0 \<le> sint (curr (fold Async ts (NewTimeSynchronizer k))) \<and>
         (\<forall>t\<in>set ts. sint t \<le> sint (curr (fold Async ts (NewTimeSynchronizer k))) + 10) \<and>
         (set ts = {100, 50, 300, 200} \<longrightarrow>
            curr (fold Async ts (NewTimeSynchronizer k)) = 300)"
proof -
  let ?r = "curr (fold Async ts (NewTimeSynchronizer k))"
  have z: "curr (NewTimeSynchronizer k) = 0" by (simp add: NewTimeSynchronizer_def)
  have "sint (curr (NewTimeSynchronizer k)) + 10 < 2 ^ 63" by (simp add: z)
  from fold_Async_inv [OF assms this]
  have a: "?r = 0 \<or> ?r \<in> set ts" and b: "0 \<le> sint ?r"
    and c: "\<forall>t\<in>set ts. sint t \<le> sint ?r + 10"
    by (simp_all add: z)
  have "?r = 300" if s: "set ts = {100, 50, 300, 200}"
  proof -
    from c s have "sint (300 :: int64) \<le> sint ?r + 10" by blast
    then have "290 \<le> sint ?r" by simp
    moreover from a s have "?r = 0 \<or> ?r = 100 \<or> ?r = 50 \<or> ?r = 300 \<or> ?r = 200" by auto
    ultimately show ?thesis by auto
  qed
  with a b c show ?thesis by blast
qed

theorem Async_sequence_within_hysteresis_witness:
  "sint (100 :: int64) + 10 < 2 ^ 63 \<and> sint (50 :: int64) + 10 < 2 ^ 63 \<and>
   sint (300 :: int64) + 10 < 2 ^ 63 \<and> sint (200 :: int64) + 10 < 2 ^ 63 \<and>
   set [100, 50, 300, 200 :: int64] = {100, 50, 300, 200} \<and>
   curr (fold Async [100, 50, 300, 200] (NewTimeSynchronizer ''svc:8080'')) = 300"
  using Async_sequence_within_hysteresis [of "[100, 50, 300, 200]" "''svc:8080''"]
  by simp

text \<open>
  The watermark is not the largest value seen: a first push of 5 is greater than the
  watermark 0 and is dropped, and after 100 a push of 105 is dropped as well.
\<close>

theorem Async_max_counterexample:
  "curr (fold Async [5] (NewTimeSynchronizer ''svc:8080'')) = 0 \<and> (0 :: int64) <s 5 \<and>
   curr (fold Async [100, 105] (NewTimeSynchronizer ''svc:8080'')) = 100"
  by (simp add: Async_def NewTimeSynchronizer_def word_sless_alt)

section \<open>The periodic flush\<close>

lemma updateDB_pointwise:
  "online (updateDB s now db) = online db \<and>
   length (rows (updateDB s now db)) = length (rows db) \<and>
   (\<forall>i<length (rows db).
      (Key (rows db ! i) \<noteq> sync_nodeIdKey s \<longrightarrow> rows (updateDB s now db) ! i = rows db ! i) \<and>
      (rows (updateDB s now db) ! i = rows db ! i \<or>
       rows (updateDB s now db) ! i = (rows db ! i)\<lparr>Time := curr s, Updated := now\<rparr>))"
proof (cases "curr s = 0")
  case True
  then show ?thesis by (simp add: updateDB_def)
next
  case nz: False
  let ?v = "\<lparr>Key = sync_nodeIdKey s, NodeID = 0, Time = curr s, Created = None, Updated = now\<rparr>"
  show ?thesis
  proof (cases "Updates db (\<lambda>r. True) ?v")
    case (Inl e)
    with nz have "updateDB s now db = db" by (simp add: updateDB_def)
    then show ?thesis by simp
  next
    case (Inr db')
    with nz have u: "updateDB s now db = db'" by (simp add: updateDB_def)
    have a: "assign ?v r = r\<lparr>Time := curr s, Updated := now\<rparr>" for r
      using nz by (simp add: assign_def)
    show ?thesis unfolding u using Updates_Inr [OF Inr] by (simp add: a)
  qed
qed

text \<open>
  C9. A tick that finds the watermark at 0 returns before it builds the update: the
  store (rows and all) after the tick is the store before it. And whatever the
  watermark is, a row that a tick has changed does not hold the watermark 0.
\<close>

theorem updateDB_zero_skips:
  "(curr m = 0 \<longrightarrow> updateDB m now db = db) \<and>
   (\<forall>i<length (rows db).
      rows (updateDB m now db) ! i = rows db ! i \<or> Time (rows (updateDB m now db) ! i) \<noteq> 0)"
proof (cases "curr m = 0")
  case True
  then show ?thesis by (simp add: updateDB_def)
next
  case False
  with updateDB_pointwise [of m now db] show ?thesis by auto
qed

text \<open>A tick before any push leaves the row of the first allocation as it is; a tick
  after a push has written that push, not 0.\<close>

theorem updateDB_zero_skips_witness:
  "curr (NewTimeSynchronizer ''svc:8080'') = 0 \<and>
   updateDB (NewTimeSynchronizer ''svc:8080'') 1700000000000
     \<lparr>rows = [\<lparr>Key = ''svc:8080'', NodeID = 7, Time = 1699999999000,
               Created = Some 1699999999000, Updated = 1699999999000\<rparr>], online = True\<rparr>
   = \<lparr>rows = [\<lparr>Key = ''svc:8080'', NodeID = 7, Time = 1699999999000,
               Created = Some 1699999999000, Updated = 1699999999000\<rparr>], online = True\<rparr> \<and>
   (0 :: nat) < length [\<lparr>Key = ''svc:8080'', NodeID = 7, Time = 1699999999000,
               Created = Some 1699999999000, Updated = 1699999999000\<rparr>] \<and>
   Time (rows (updateDB (Async 1700000000123 (NewTimeSynchronizer ''svc:8080'')) 1700000001000
     \<lparr>rows = [\<lparr>Key = ''svc:8080'', NodeID = 7, Time = 1699999999000,
               Created = Some 1699999999000, Updated = 1699999999000\<rparr>], online = True\<rparr>) ! 0)
   = 1700000000123"
  using updateDB_zero_skips [of "NewTimeSynchronizer ''svc:8080''" 1700000000000
      "\<lparr>rows = [\<lparr>Key = ''svc:8080'', NodeID = 7, Time = 1699999999000,
               Created = Some 1699999999000, Updated = 1699999999000\<rparr>], online = True\<rparr>"]
    updateDB_zero_skips [of "Async 1700000000123 (NewTimeSynchronizer ''svc:8080'')" 1700000001000
      "\<lparr>rows = [\<lparr>Key = ''svc:8080'', NodeID = 7, Time = 1699999999000,
               Created = Some 1699999999000, Updated = 1699999999000\<rparr>], online = True\<rparr>"]
  by (simp add: NewTimeSynchronizer_def Async_def updateDB_def Updates_def assign_def
        word_sless_alt)



section \<open>The random strategy\<close>

lemma thresh_1023: "(- 1023 :: uint64) mod 1023 = 16"
  by (simp add: word_unat_eq_iff unat_mod unat_bintrunc_neg)

lemma unbias_accept: "\<not> lo < thresh \<Longrightarrow> unbias n thresh (hi, lo) ds = Some hi"
  by (simp add: unbias.simps [of n thresh hi lo ds])

lemma unbias_Nil: "lo < thresh \<Longrightarrow> unbias n thresh (hi, lo) [] = None"
  by (simp add: unbias.simps [of n thresh hi lo "[]"])

lemma unbias_Cons:
  "lo < thresh \<Longrightarrow> unbias n thresh (hi, lo) (x # ds) = unbias n thresh (Mul64 x n) ds"
  by (simp add: unbias.simps [of n thresh hi lo "x # ds"])

lemma uint64n_1023_unbias:
  "uint64n 1023 (x # xs) = unbias 1023 16 (Mul64 x 1023) xs"
proof -
  obtain hi lo where m: "Mul64 x 1023 = (hi, lo)" by (cases "Mul64 x 1023")
  have "unbias 1023 16 (hi, lo) xs = Some hi" if "\<not> lo < 1023"
  proof -
    from that have "\<not> lo < 16" by (simp add: word_less_nat_alt)
    then show ?thesis by (rule unbias_accept)
  qed
  then show ?thesis by (simp add: uint64n_def m thresh_1023)
qed

lemma uint64n_1023_Nil: "uint64n 1023 [] = None"
  by (simp add: uint64n_def)

lemma uint64n_1023_Cons:
  "uint64n 1023 (x # xs) =
     (if x * 1023 < 16 then uint64n 1023 xs else Some (word_of_nat (unat x * 1023 div 2 ^ 64)))"
proof (cases "x * 1023 < 16")
  case False
  then show ?thesis by (simp add: uint64n_1023_unbias Mul64_def unbias_accept)
next
  case True
  show ?thesis
  proof (cases xs)
    case Nil
    with True show ?thesis
      by (simp add: uint64n_1023_unbias uint64n_1023_Nil Mul64_def unbias_Nil)
  next
    case (Cons y ys)
    with True show ?thesis
      by (simp add: uint64n_1023_unbias Mul64_def unbias_Cons)
  qed
qed

lemma ceil_div_le:
  fixes a n k :: nat
  assumes "0 < n" and "0 < a"
  shows "(a \<le> n * k) = ((a + n - 1) div n \<le> k)"
proof -
  have "((a + n - 1) div n \<le> k) = ((a + n - 1) div n < Suc k)" by auto
  also have "\<dots> = (a + n - 1 < Suc k * n)" using assms(1) by (simp only: div_less_iff_less_mult)
  also have "\<dots> = (a \<le> n * k)" using assms by (auto simp: algebra_simps)
  finally show ?thesis by simp
qed

lemma multiples_interval:
  fixes a n K :: nat
  assumes "0 < n" and "0 < a"
  shows "{k. a \<le> n * k \<and> n * k < a + n * K} = {(a + n - 1) div n ..< (a + n - 1) div n + K}"
proof (intro set_eqI iffI)
  fix k
  let ?c = "(a + n - 1) div n"
  assume "k \<in> {k. a \<le> n * k \<and> n * k < a + n * K}"
  then have l: "a \<le> n * k" and u: "n * k < a + n * K" by simp_all
  from l have "?c \<le> k" using ceil_div_le [OF assms] by simp
  moreover have "k < ?c + K"
  proof (rule ccontr)
    assume "\<not> k < ?c + K"
    then have "?c \<le> k - K" and "K \<le> k" by simp_all
    then have "a \<le> n * (k - K)" using ceil_div_le [OF assms] by simp
    moreover have "n * K \<le> n * k" using \<open>K \<le> k\<close> by (rule mult_le_mono2)
    moreover have "n * (k - K) = n * k - n * K" by (rule diff_mult_distrib2)
    ultimately have "a + n * K \<le> n * k" by linarith
    with u show False by simp
  qed
  ultimately show "k \<in> {?c ..< ?c + K}" by simp
next
  fix k
  let ?c = "(a + n - 1) div n"
  assume "k \<in> {?c ..< ?c + K}"
  then have l: "?c \<le> k" and u: "k < ?c + K" by simp_all
  from l have 1: "a \<le> n * k" using ceil_div_le [OF assms] by simp
  have 2: "n * k < a + n * K"
  proof (cases "K \<le> k")
    case True
    with u have "\<not> ?c \<le> k - K" by simp
    then have "\<not> a \<le> n * (k - K)" using ceil_div_le [OF assms] by simp
    then have "n * (k - K) < a" by simp
    moreover have "n * K \<le> n * k" using True by (rule mult_le_mono2)
    moreover have "n * (k - K) = n * k - n * K" by (rule diff_mult_distrib2)
    ultimately show ?thesis by linarith
  next
    case False
    then have "n * k < n * K" using assms(1) by simp
    then show ?thesis by (rule trans_less_add2)
  qed
  from 1 2 show "k \<in> {k. a \<le> n * k \<and> n * k < a + n * K}" by simp
qed

lemma card_multiples:
  fixes a n K :: nat
  assumes "0 < n" and "0 < a"
  shows "card {k. a \<le> n * k \<and> n * k < a + n * K} = K"
  by (simp add: multiples_interval [OF assms])

lemma div_mod_window:
  fixes p D V t :: nat
  assumes "t \<le> D" and "0 < D"
  shows "(p div D = V \<and> t \<le> p mod D) = (V * D + t \<le> p \<and> p < V * D + D)"
proof
  assume a: "p div D = V \<and> t \<le> p mod D"
  have "p = p div D * D + p mod D" by simp
  moreover have "p mod D < D" using assms(2) by simp
  ultimately show "V * D + t \<le> p \<and> p < V * D + D" using a by (metis add_le_cancel_left add_less_cancel_left)
next
  assume a: "V * D + t \<le> p \<and> p < V * D + D"
  then have "D * V \<le> p" and "p < D * Suc V" by (simp_all add: algebra_simps)
  then have d: "p div D = V" by (rule div_nat_eqI)
  have "p = V * D + p mod D" using d by (metis div_mult_mod_eq)
  with a have "t \<le> p mod D" by linarith
  with d show "p div D = V \<and> t \<le> p mod D" by simp
qed

lemma unat_mul_1023: "unat (x * 1023 :: uint64) = unat x * 1023 mod 18446744073709551616"
  by (simp add: unat_word_ariths)

lemma hi_bound: "unat (x :: uint64) * 1023 div 18446744073709551616 < 1023"
proof -
  have "unat x < 18446744073709551616" using unsigned_less [of x, where 'a = nat] by simp
  then have "unat x * 1023 < 1023 * 18446744073709551616" by simp
  then show ?thesis by (simp only: div_less_iff_less_mult zero_less_numeral)
qed

lemma unat_hi:
  "unat (word_of_nat (unat (x :: uint64) * 1023 div 18446744073709551616) :: uint64) =
     unat x * 1023 div 18446744073709551616"
proof -
  have "unat x * 1023 div 18446744073709551616 < 18446744073709551616"
    using hi_bound [of x] by simp
  then show ?thesis by (simp add: unat_of_nat)
qed

lemma single_draw:
  "uint64n 1023 [x] =
     (if x * 1023 < 16 then None else Some (word_of_nat (unat x * 1023 div 18446744073709551616)))"
  by (simp add: uint64n_1023_Cons uint64n_1023_Nil)

lemma draw_window:
  "(uint64n 1023 [x] = Some v) =
   (unat v * 18446744073709551616 + 16 \<le> 1023 * unat x \<and>
    1023 * unat x < unat v * 18446744073709551616 + 16 + 1023 * 18032007892189200)"
proof -
  have "(uint64n 1023 [x] = Some v) =
        (unat x * 1023 div 18446744073709551616 = unat v \<and>
         16 \<le> unat x * 1023 mod 18446744073709551616)"
    unfolding single_draw
    by (auto simp: word_less_nat_alt unat_mul_1023 word_unat_eq_iff unat_hi)
  also have "\<dots> = (unat v * 18446744073709551616 + 16 \<le> unat x * 1023 \<and>
                    unat x * 1023 < unat v * 18446744073709551616 + 18446744073709551616)"
    by (rule div_mod_window) simp_all
  finally show ?thesis by (simp add: ac_simps)
qed

lemma draw_count:
  assumes "v \<le> (1022 :: uint64)"
  shows "card {x. uint64n 1023 [x] = Some v} = 18032007892189200"
proof -
  let ?a = "unat v * 18446744073709551616 + 16"
  let ?A = "{k. ?a \<le> 1023 * k \<and> 1023 * k < ?a + 1023 * 18032007892189200}"
  have v: "unat v \<le> 1022" using assms by (simp add: word_le_nat_alt)
  have "unat ` {x :: uint64. uint64n 1023 [x] = Some v} = ?A"
  proof (intro set_eqI iffI)
    fix k assume "k \<in> unat ` {x :: uint64. uint64n 1023 [x] = Some v}"
    then show "k \<in> ?A" by (auto simp: draw_window)
  next
    fix k assume "k \<in> ?A"
    then have w: "?a \<le> 1023 * k" "1023 * k < ?a + 1023 * 18032007892189200" by simp_all
    from w(2) v have "k < 18446744073709551616" by simp
    then have u: "unat (word_of_nat k :: uint64) = k" by (simp add: unat_of_nat)
    with w have "uint64n 1023 [word_of_nat k :: uint64] = Some v" by (simp add: draw_window)
    then have "unat (word_of_nat k :: uint64) \<in> unat ` {x :: uint64. uint64n 1023 [x] = Some v}"
      by (intro imageI) simp
    then show "k \<in> unat ` {x :: uint64. uint64n 1023 [x] = Some v}" by (simp only: u)
  qed
  moreover have "inj_on unat {x :: uint64. uint64n 1023 [x] = Some v}"
    by (rule inj_onI) (simp add: word_unat_eq_iff)
  ultimately have "card {x :: uint64. uint64n 1023 [x] = Some v} = card ?A"
    using card_image [of unat "{x :: uint64. uint64n 1023 [x] = Some v}"] by simp
  also have "\<dots> = 18032007892189200" by (rule card_multiples) simp_all
  finally show ?thesis .
qed

lemma draw_range:
  assumes "uint64n 1023 draws = Some v"
  shows "v \<le> 1022"
  using assms
proof (induction draws)
  case Nil
  then show ?case by (simp add: uint64n_1023_Nil)
next
  case (Cons x xs)
  show ?case
  proof (cases "x * 1023 < 16")
    case True
    with Cons show ?thesis by (simp add: uint64n_1023_Cons)
  next
    case False
    with Cons.prems have "v = word_of_nat (unat x * 1023 div 18446744073709551616)"
      by (simp add: uint64n_1023_Cons)
    then have "unat v < 1023" using hi_bound [of x] by (simp add: unat_hi)
    then show ?thesis by (simp add: word_le_nat_alt)
  qed
qed

lemma signed_range_1022: "(0 \<le>s v \<and> v \<le>s 1022) = (v \<le> (1022 :: uint64))"
proof
  assume "v \<le> 1022"
  then have u: "uint v \<le> 1022" by (simp add: word_le_def)
  have z: "0 \<le> uint v" by simp
  have "signed_take_bit 63 (uint v) = uint v"
  proof (rule signed_take_bit_int_eq_self)
    show "- (2 ^ 63) \<le> uint v" by (rule order_trans [of _ 0]) simp_all
    show "uint v < 2 ^ 63" using u by simp
  qed
  then have "sint v = uint v" by (simp add: sint_uint)
  with u show "0 \<le>s v \<and> v \<le>s 1022" by (simp add: word_sle_eq)
next
  assume "0 \<le>s v \<and> v \<le>s 1022"
  then have s: "0 \<le> sint v" "sint v \<le> 1022" by (simp_all add: word_sle_eq)
  have "uint v = uint (word_of_int (sint v) :: uint64)" by simp
  also have "\<dots> = take_bit 64 (sint v)" by (simp only: uint_word_of_int_eq) simp
  also have "\<dots> = sint v"
  proof (rule take_bit_int_eq_self)
    show "0 \<le> sint v" by (rule s)
    show "sint v < 2 ^ 64" using s by simp
  qed
  finally show "v \<le> 1022" using s by (simp add: word_le_def)
qed

lemma Rand_Alloc_uint64n:
  "RandNodeIdAllocator_Alloc draws =
     (case uint64n 1023 draws of None \<Rightarrow> None | Some v \<Rightarrow> Some (Returned (Inr v)))"
  by (simp add: RandNodeIdAllocator_Alloc_def Int64N_def word_sle_eq split: option.splits)

lemma Rand_Alloc_Some:
  "(RandNodeIdAllocator_Alloc draws = Some (Returned (Inr v))) = (uint64n 1023 draws = Some v)"
  by (simp add: Rand_Alloc_uint64n split: option.splits)

lemma Rand_Alloc_range:
  assumes "RandNodeIdAllocator_Alloc draws = Some r"
  shows "\<exists>v. r = Returned (Inr v) \<and> 0 \<le>s v \<and> v \<le>s 1022"
proof -
  from assms obtain v where u: "uint64n 1023 draws = Some v" and r: "r = Returned (Inr v)"
    by (auto simp: Rand_Alloc_uint64n split: option.splits)
  from draw_range [OF u] have "0 \<le>s v \<and> v \<le>s 1022" by (simp add: signed_range_1022)
  with r show ?thesis by simp
qed

text \<open>
  C7. \<open>Alloc\<close> and \<open>Migration\<close> of the random strategy are the same function of the
  raw values read from the generator, whatever node id \<open>Migration\<close> is given. A value
  they return is a node id from 0 to 1022, with a \<open>nil\<close> error. Each of these 1023 node
  ids is the result for the same number, 18032007892189200, of the 2^64 raw values, so
  that raw values that are equally likely give equally likely node ids. A raw value
  \<open>x\<close> is dropped when the low half of \<open>1023 * x\<close> is below 16, and the next raw value
  decides in the same way; any other raw value gives the high half of \<open>1023 * x\<close>.
\<close>

theorem Rand_uniform:
  "RandNodeIdAllocator_Migration nodeId draws = RandNodeIdAllocator_Alloc draws \<and>
   (RandNodeIdAllocator_Alloc draws = Some r \<longrightarrow>
      (\<exists>v. r = Returned (Inr v) \<and> 0 \<le>s v \<and> v \<le>s 1022)) \<and>
   (0 \<le>s v \<and> v \<le>s 1022 \<longrightarrow>
      card {x. RandNodeIdAllocator_Alloc [x] = Some (Returned (Inr v))} = 18032007892189200) \<and>
   RandNodeIdAllocator_Alloc (x # draws) =
     (if x * 1023 < 16 then RandNodeIdAllocator_Alloc draws
      else Some (Returned (Inr (word_of_nat (unat x * 1023 div 2 ^ 64)))))"
  (is "?same \<and> ?range \<and> ?count \<and> ?next")
proof (intro conjI)
  show ?same
    by (simp add: RandNodeIdAllocator_Migration_def RandNodeIdAllocator_Alloc_def)
  show ?range using Rand_Alloc_range [of draws r] by blast
  show ?count using draw_count [of v] by (simp add: Rand_Alloc_Some signed_range_1022)
  show ?next by (simp add: Rand_Alloc_uint64n uint64n_1023_Cons)
qed

text \<open>Node id 511: the raw value 0 is dropped, and the raw value 2^63 gives 511.\<close>

theorem Rand_uniform_witness:
  "(0 :: int64) \<le>s 511 \<and> (511 :: int64) \<le>s 1022 \<and>
   card {x. RandNodeIdAllocator_Alloc [x] = Some (Returned (Inr 511))} = 18032007892189200 \<and>
   RandNodeIdAllocator_Alloc [0, 9223372036854775808] = Some (Returned (Inr 511)) \<and>
   RandNodeIdAllocator_Migration 100 [0, 9223372036854775808] = Some (Returned (Inr 511))"
proof -
  have a: "RandNodeIdAllocator_Alloc [0, 9223372036854775808] = Some (Returned (Inr 511))"
    using Rand_uniform [of _ "[9223372036854775808]" _ _ 0]
      Rand_uniform [of _ "[]" _ _ 9223372036854775808]
    by (simp add: word_less_nat_alt unat_word_ariths)
  have r: "(0 :: int64) \<le>s 511 \<and> (511 :: int64) \<le>s 1022" by (simp add: word_sle_eq)
  with Rand_uniform [of 100 "[0, 9223372036854775808]" _ 511] a show ?thesis by simp
qed

text \<open>The node id 1023 is returned by neither method, whatever raw values are read.\<close>

theorem Rand_1023_counterexample:
  "Some (Returned (Inr 1023)) \<notin> range RandNodeIdAllocator_Alloc \<and>
   Some (Returned (Inr 1023)) \<notin> range (RandNodeIdAllocator_Migration 7)"
proof -
  have "RandNodeIdAllocator_Alloc draws \<noteq> Some (Returned (Inr 1023))" for draws
  proof
    assume "RandNodeIdAllocator_Alloc draws = Some (Returned (Inr 1023))"
    then have "uint64n 1023 draws = Some 1023" by (simp add: Rand_Alloc_Some)
    then have "(1023 :: uint64) \<le> 1022" by (rule draw_range)
    then show False by simp
  qed
  moreover have "RandNodeIdAllocator_Migration 7 draws = RandNodeIdAllocator_Alloc draws" for draws
    by (simp add: RandNodeIdAllocator_Migration_def RandNodeIdAllocator_Alloc_def)
  ultimately show ?thesis by (auto simp: image_iff) metis+
qed

section \<open>A saved watermark ahead of the clock\<close>

text \<open>
  C1. The second \<open>Alloc\<close> of the large-rollback scenario: the tolerance is 100 ms, the
  saved watermark is 24 hours ahead of the clock, the strategy proposes node id 7.
  Whatever the migration function is, \<open>Alloc\<close> does not consult it: it sleeps for the
  tolerance and returns 7 with the store unchanged, the result of the bounded wait.
\<close>

theorem Alloc_large_rollback_waits:
  "Alloc \<lparr>nodeIdKey = ''svc:8080'', acceptableClockDrift = 100000000,
           nodeIdContentionInterval = 5000000000, strategy_Alloc = Inr 7,
           strategy_Migration = migration\<rparr>
     \<lparr>rows = [\<lparr>Key = ''svc:8080'', NodeID = 7, Time = 1700086400000,
                Created = Some 1699999999000, Updated = 1699999999000\<rparr>], online = True\<rparr>
     1700000000000
   = Some \<lparr>ret = Inr 7,
           store_after = \<lparr>rows = [\<lparr>Key = ''svc:8080'', NodeID = 7, Time = 1700086400000,
                Created = Some 1699999999000, Updated = 1699999999000\<rparr>], online = True\<rparr>,
           slept = [100000000]\<rparr>"
  by (simp add: Alloc_def Alloc_loop_Return Alloc_iteration_def First_def Microseconds_def
        signed_divide_int_def)

text \<open>
  C6. The saved watermark of the candidate is \<open>now + driftAmount\<close>, with \<open>driftAmount\<close>
  positive and at most the tolerance in milliseconds, the clock reading not negative
  and the sum within \<open>int64\<close>. Then \<open>Alloc\<close> sleeps once, for the configured tolerance
  itself, returns the candidate and leaves the store as it was.
\<close>

theorem Alloc_small_rollback_waits:
  assumes cand: "strategy_Alloc m = Inr nodeId"
      and found: "First db (nodeIdKey m) nodeId = Inr saved"
      and mark: "Time saved = now + driftAmount"
      and pos: "0 <s driftAmount"
      and within: "driftAmount \<le>s Milliseconds (acceptableClockDrift m)"
      and clock: "0 \<le>s now"
      and range: "sint now + sint driftAmount < 2 ^ 63"
  shows "Alloc m db now =
           Some \<lparr>ret = Inr nodeId, store_after = db, slept = [acceptableClockDrift m]\<rparr>"
proof -
  have p: "0 < sint driftAmount" using pos by (simp add: word_sless_alt)
  have n: "0 \<le> sint now" using clock by (simp add: word_sle_eq)
  have "sint (now + driftAmount) = sint now + sint driftAmount"
    using p n range by (intro sint_add_in_range) simp_all
  with p have ahead: "now <s Time saved" by (simp add: mark word_sless_alt)
  have "sint driftAmount \<le> sint (acceptableClockDrift m) sdiv 1000000"
    using within by (simp add: word_sle_eq sint_Milliseconds)
  with p have ms: "0 < sint (acceptableClockDrift m) sdiv 1000000" by simp
  have "0 \<le> sint (acceptableClockDrift m)"
  proof (rule ccontr)
    assume "\<not> 0 \<le> sint (acceptableClockDrift m)"
    then have "sint (acceptableClockDrift m) < 0" by simp
    then have "sint (acceptableClockDrift m) sdiv 1000000 \<le> 0"
      by (intro sdiv_neg(2)) simp_all
    with ms show False by simp
  qed
  then have drift: "0 \<le>s acceptableClockDrift m" by (simp add: word_sle_eq)
  from rollback_iteration_waits [OF found ahead drift clock] show ?thesis
    by (simp add: Alloc_def cand Alloc_loop_Return)
qed

text \<open>The small-rollback scenario: a tolerance of 500 ms and a watermark 200 ms ahead.\<close>

theorem Alloc_small_rollback_waits_witness:
  "First \<lparr>rows = [\<lparr>Key = ''svc:8080'', NodeID = 7, Time = 1700000000200,
                   Created = Some 1699999999000, Updated = 1699999999000\<rparr>], online = True\<rparr>
     ''svc:8080'' 7
   = Inr \<lparr>Key = ''svc:8080'', NodeID = 7, Time = 1700000000200,
          Created = Some 1699999999000, Updated = 1699999999000\<rparr> \<and>
   (1700000000200 :: int64) = 1700000000000 + 200 \<and>
   (0 :: int64) <s 200 \<and> 200 \<le>s Milliseconds 500000000 \<and>
   (0 :: int64) \<le>s 1700000000000 \<and>
   sint (1700000000000 :: int64) + sint (200 :: int64) < 2 ^ 63 \<and>
   Alloc \<lparr>nodeIdKey = ''svc:8080'', acceptableClockDrift = 500000000,
           nodeIdContentionInterval = 5000000000, strategy_Alloc = Inr 7,
           strategy_Migration = Inr\<rparr>
     \<lparr>rows = [\<lparr>Key = ''svc:8080'', NodeID = 7, Time = 1700000000200,
                Created = Some 1699999999000, Updated = 1699999999000\<rparr>], online = True\<rparr>
     1700000000000
   = Some \<lparr>ret = Inr 7,
           store_after = \<lparr>rows = [\<lparr>Key = ''svc:8080'', NodeID = 7, Time = 1700000000200,
                Created = Some 1699999999000, Updated = 1699999999000\<rparr>], online = True\<rparr>,
           slept = [500000000]\<rparr>"
  using Alloc_small_rollback_waits
    [of "\<lparr>nodeIdKey = ''svc:8080'', acceptableClockDrift = 500000000,
           nodeIdContentionInterval = 5000000000, strategy_Alloc = Inr 7,
           strategy_Migration = Inr\<rparr>" 7
        "\<lparr>rows = [\<lparr>Key = ''svc:8080'', NodeID = 7, Time = 1700000000200,
                Created = Some 1699999999000, Updated = 1699999999000\<rparr>], online = True\<rparr>"
        "\<lparr>Key = ''svc:8080'', NodeID = 7, Time = 1700000000200,
                Created = Some 1699999999000, Updated = 1699999999000\<rparr>"
        1700000000000 200]
  by (simp add: First_def Milliseconds_def signed_divide_int_def word_sless_alt word_sle_eq)

text \<open>
  The sleep is not the gap: with a tolerance of 5 s (5000000000 ns) and a watermark
  1 ms ahead of the clock, \<open>Alloc\<close> sleeps for the 5 s.
\<close>

theorem Alloc_wait_duration_counterexample:
  "Alloc \<lparr>nodeIdKey = ''svc:8080'', acceptableClockDrift = 5000000000,
           nodeIdContentionInterval = 5000000000, strategy_Alloc = Inr 7,
           strategy_Migration = Inr\<rparr>
     \<lparr>rows = [\<lparr>Key = ''svc:8080'', NodeID = 7, Time = 1700000000001,
                Created = Some 1699999999000, Updated = 1699999999000\<rparr>], online = True\<rparr>
     1700000000000
   = Some \<lparr>ret = Inr 7,
           store_after = \<lparr>rows = [\<lparr>Key = ''svc:8080'', NodeID = 7, Time = 1700000000001,
                Created = Some 1699999999000, Updated = 1699999999000\<rparr>], online = True\<rparr>,
           slept = [5000000000]\<rparr>"
  by (simp add: Alloc_def Alloc_loop_Return Alloc_iteration_def First_def Microseconds_def
        signed_divide_int_def)

section \<open>The loop has no ceiling\<close>




section \<open>The node id that is returned and written back\<close>

text \<open>
  C10. A call of \<open>Alloc\<close> that returns a node id \<open>v\<close> returns it from the pass of the
  loop that ran with the candidate \<open>v\<close>. When that pass found a saved row (no insert),
  the row's node id already is \<open>v\<close>, so that the assignment \<open>saved.NodeID = nodeId\<close>
  of the contention branch leaves the row as it was fetched, and no node id in the
  table is changed by the call.
\<close>

theorem Alloc_returns_candidate:
  assumes "Alloc m db now = Some out" and "ret out = Inr v"
  shows "Alloc_iteration m db now v = Return out \<and>
         (\<forall>saved. First db (nodeIdKey m) v = Inr saved \<longrightarrow>
            NodeID saved = v \<and> saved\<lparr>NodeID := v\<rparr> = saved \<and>
            map NodeID (rows (store_after out)) = map NodeID (rows db))"
  using assms(1)
proof (cases rule: Alloc_Some_cases)
  case (strategy e)
  with assms(2) show ?thesis by simp
next
  case (iteration n)
  from iteration_candidate [OF iteration assms(2)] have v: "v = n" .
  show ?thesis
    using iteration iteration_found_node_ids [OF iteration] First_Inr(2) [of db "nodeIdKey m" n]
    unfolding v by auto
qed

text \<open>The contention scenario: an interval of 200 ms and a row last renewed 1300 ms
  before the call.\<close>

theorem Alloc_returns_candidate_witness:
  "Alloc \<lparr>nodeIdKey = ''svc:8080'', acceptableClockDrift = 1000000000,
           nodeIdContentionInterval = 200000000, strategy_Alloc = Inr 7,
           strategy_Migration = Inr\<rparr>
     \<lparr>rows = [\<lparr>Key = ''svc:8080'', NodeID = 7, Time = 1699999998700,
                Created = Some 1699999998000, Updated = 1699999998700\<rparr>], online = True\<rparr>
     1700000000000
   = Some \<lparr>ret = Inr 7,
           store_after = \<lparr>rows = [\<lparr>Key = ''svc:8080'', NodeID = 7, Time = 1700000000000,
                Created = Some 1699999998000, Updated = 1700000000000\<rparr>], online = True\<rparr>,
           slept = []\<rparr> \<and>
   Alloc_iteration \<lparr>nodeIdKey = ''svc:8080'', acceptableClockDrift = 1000000000,
           nodeIdContentionInterval = 200000000, strategy_Alloc = Inr 7,
           strategy_Migration = Inr\<rparr>
     \<lparr>rows = [\<lparr>Key = ''svc:8080'', NodeID = 7, Time = 1699999998700,
                Created = Some 1699999998000, Updated = 1699999998700\<rparr>], online = True\<rparr>
     1700000000000 7
   = Return \<lparr>ret = Inr 7,
           store_after = \<lparr>rows = [\<lparr>Key = ''svc:8080'', NodeID = 7, Time = 1700000000000,
                Created = Some 1699999998000, Updated = 1700000000000\<rparr>], online = True\<rparr>,
           slept = []\<rparr>"
proof -
  let ?m = "\<lparr>nodeIdKey = ''svc:8080'', acceptableClockDrift = 1000000000,
           nodeIdContentionInterval = 200000000, strategy_Alloc = Inr 7,
           strategy_Migration = Inr\<rparr>"
  let ?db = "\<lparr>rows = [\<lparr>Key = ''svc:8080'', NodeID = 7, Time = 1699999998700,
                Created = Some 1699999998000, Updated = 1699999998700\<rparr>], online = True\<rparr>"
  let ?out = "\<lparr>ret = Inr 7,
           store_after = \<lparr>rows = [\<lparr>Key = ''svc:8080'', NodeID = 7, Time = 1700000000000,
                Created = Some 1699999998000, Updated = 1700000000000\<rparr>], online = True\<rparr>,
           slept = []\<rparr>"
  have a: "Alloc ?m ?db 1700000000000 = Some ?out"
    by (simp add: Alloc_def Alloc_loop_Return Alloc_iteration_def First_def Updates_def
          assign_def Milliseconds_def signed_divide_int_def)
  have r: "ret ?out = Inr 7" by simp
  from Alloc_returns_candidate [OF a r] a show ?thesis by simp
qed

section \<open>One row for each key\<close>

text \<open>
  C4. Every call of \<open>Alloc\<close> that returns keeps the keys of the table distinct when
  they were, so that no pair of key and node id is in the table twice. When the table
  already holds a row under the allocator's key, the call inserts nothing: the keys
  and the number of rows are as before, and the rows under other keys are untouched.
  A call that returns a node id leaves a row under the key, so that this holds for
  every later call. What such a call does to the existing row: when the saved
  watermark is not ahead of the clock, the row is updated in place, its watermark and
  its update time set to the clock reading; when the watermark is ahead of the clock,
  or the call returns an error, the table is left as it was.
\<close>

theorem Alloc_one_record_per_key:
  assumes "Alloc m db now = Some out"
  shows "(distinct (map Key (rows db)) \<longrightarrow>
            distinct (map Key (rows (store_after out))) \<and>
            distinct (map (\<lambda>r. (Key r, NodeID r)) (rows (store_after out)))) \<and>
         (nodeIdKey m \<in> set (map Key (rows db)) \<longrightarrow>
            map Key (rows (store_after out)) = map Key (rows db) \<and>
            length (rows (store_after out)) = length (rows db) \<and>
            (\<forall>i<length (rows db). Key (rows db ! i) \<noteq> nodeIdKey m \<longrightarrow>
               rows (store_after out) ! i = rows db ! i)) \<and>
         (\<forall>v. ret out = Inr v \<longrightarrow> nodeIdKey m \<in> set (map Key (rows (store_after out)))) \<and>
         (\<forall>e. ret out = Inl e \<longrightarrow> store_after out = db) \<and>
         (\<forall>saved v. ret out = Inr v \<and> First db (nodeIdKey m) v = Inr saved \<and>
            now <s Time saved \<longrightarrow> store_after out = db) \<and>
         (\<forall>saved v. ret out = Inr v \<and> First db (nodeIdKey m) v = Inr saved \<and>
            \<not> now <s Time saved \<and> now \<noteq> 0 \<longrightarrow>
            First (store_after out) (nodeIdKey m) v = Inr (saved\<lparr>Time := now, Updated := now\<rparr>))"
  using assms
proof (cases rule: Alloc_Some_cases)
  case (strategy e)
  then show ?thesis by (simp add: distinct_key_pairs)
next
  case (iteration n)
  have c: "v = n" if "ret out = Inr v" for v
    using iteration_candidate [OF iteration that] .
  show ?thesis
    using iteration_distinct_keys [OF iteration] iteration_no_insert [OF iteration]
      iteration_success_key [OF iteration] iteration_effect [OF iteration] c
    by (auto intro: distinct_key_pairs)
qed

text \<open>A second allocation under \<open>svc:8080\<close>, one second after the first, in a table that
  also holds a row of \<open>svc:9090\<close>.\<close>

theorem Alloc_one_record_per_key_witness:
  "Alloc \<lparr>nodeIdKey = ''svc:8080'', acceptableClockDrift = 1000000000,
           nodeIdContentionInterval = 5000000000, strategy_Alloc = Inr 7,
           strategy_Migration = Inr\<rparr>
     \<lparr>rows = [\<lparr>Key = ''svc:8080'', NodeID = 7, Time = 1699999999000,
                Created = Some 1699999999000, Updated = 1699999999000\<rparr>,
              \<lparr>Key = ''svc:9090'', NodeID = 9, Time = 1699999998000,
                Created = Some 1699999998000, Updated = 1699999998000\<rparr>], online = True\<rparr>
     1700000000000
   = Some \<lparr>ret = Inr 7,
           store_after = \<lparr>rows = [\<lparr>Key = ''svc:8080'', NodeID = 7, Time = 1700000000000,
                Created = Some 1699999999000, Updated = 1700000000000\<rparr>,
              \<lparr>Key = ''svc:9090'', NodeID = 9, Time = 1699999998000,
                Created = Some 1699999998000, Updated = 1699999998000\<rparr>], online = True\<rparr>,
           slept = []\<rparr> \<and>
   distinct [''svc:8080'', ''svc:9090''] \<and>
   ''svc:8080'' \<in> set [''svc:8080'', ''svc:9090''] \<and>
   distinct (map (\<lambda>r. (Key r, NodeID r))
     [\<lparr>Key = ''svc:8080'', NodeID = 7, Time = 1700000000000,
        Created = Some 1699999999000, Updated = 1700000000000\<rparr>,
      \<lparr>Key = ''svc:9090'', NodeID = 9, Time = 1699999998000,
        Created = Some 1699999998000, Updated = 1699999998000\<rparr>])"
proof -
  let ?m = "\<lparr>nodeIdKey = ''svc:8080'', acceptableClockDrift = 1000000000,
           nodeIdContentionInterval = 5000000000, strategy_Alloc = Inr 7,
           strategy_Migration = Inr\<rparr>"
  let ?db = "\<lparr>rows = [\<lparr>Key = ''svc:8080'', NodeID = 7, Time = 1699999999000,
                Created = Some 1699999999000, Updated = 1699999999000\<rparr>,
              \<lparr>Key = ''svc:9090'', NodeID = 9, Time = 1699999998000,
                Created = Some 1699999998000, Updated = 1699999998000\<rparr>], online = True\<rparr>"
  let ?out = "\<lparr>ret = Inr 7,
           store_after = \<lparr>rows = [\<lparr>Key = ''svc:8080'', NodeID = 7, Time = 1700000000000,
                Created = Some 1699999999000, Updated = 1700000000000\<rparr>,
              \<lparr>Key = ''svc:9090'', NodeID = 9, Time = 1699999998000,
                Created = Some 1699999998000, Updated = 1699999998000\<rparr>], online = True\<rparr>,
           slept = []\<rparr>"
  have a: "Alloc ?m ?db 1700000000000 = Some ?out"
    by (simp add: Alloc_def Alloc_loop_Return Alloc_iteration_def First_def Updates_def
          assign_def Milliseconds_def signed_divide_int_def)
  from Alloc_one_record_per_key [OF a] a show ?thesis by simp
qed

text \<open>
  A later call that does not update the row: the first allocation creates the row at
  clock reading 1700000000200; at the next call the clock reads 200 ms less, the call
  waits for the tolerance of one second and returns with the table as it was.
\<close>

theorem Alloc_update_counterexample:
  "Alloc \<lparr>nodeIdKey = ''svc:8080'', acceptableClockDrift = 1000000000,
           nodeIdContentionInterval = 5000000000, strategy_Alloc = Inr 7,
           strategy_Migration = Inr\<rparr>
     \<lparr>rows = [], online = True\<rparr> 1700000000200
   = Some \<lparr>ret = Inr 7,
           store_after = \<lparr>rows = [\<lparr>Key = ''svc:8080'', NodeID = 7, Time = 1700000000200,
                Created = Some 1700000000200, Updated = 1700000000200\<rparr>], online = True\<rparr>,
           slept = []\<rparr> \<and>
   Alloc \<lparr>nodeIdKey = ''svc:8080'', acceptableClockDrift = 1000000000,
           nodeIdContentionInterval = 5000000000, strategy_Alloc = Inr 7,
           strategy_Migration = Inr\<rparr>
     \<lparr>rows = [\<lparr>Key = ''svc:8080'', NodeID = 7, Time = 1700000000200,
                Created = Some 1700000000200, Updated = 1700000000200\<rparr>], online = True\<rparr>
     1700000000000
   = Some \<lparr>ret = Inr 7,
           store_after = \<lparr>rows = [\<lparr>Key = ''svc:8080'', NodeID = 7, Time = 1700000000200,
                Created = Some 1700000000200, Updated = 1700000000200\<rparr>], online = True\<rparr>,
           slept = [1000000000]\<rparr>"
  by (simp add: Alloc_def Alloc_loop_Return Alloc_iteration_def First_def Create_def
        Microseconds_def signed_divide_int_def)

end
